theory Spec2Isabelle
  imports Complex_Main
begin

section \<open>Constants of \<^verbatim>\<open>dqn_agent.py\<close>\<close>

text \<open>
  Tensor entries are modelled as real numbers with exact arithmetic; rounding and the
  non-finite values of floating point are outside this development.
\<close>

definition BUFFER_SIZE :: int where
  "BUFFER_SIZE = 100000"

definition BATCH_SIZE :: int where
  "BATCH_SIZE = 64"

definition GAMMA :: real where
  "GAMMA = 99 / 100"

definition TAU :: real where
  "TAU = 1 / 1000"

definition UPDATE_EVERY :: nat where
  "UPDATE_EVERY = 4"

section \<open>Exceptions\<close>

text \<open>
  The exceptions raised by the library calls of the file: \<^verbatim>\<open>ValueError\<close> by
  \<^verbatim>\<open>deque(maxlen=...)\<close>, \<^verbatim>\<open>random.sample\<close>, \<^verbatim>\<open>np.vstack\<close> and \<^verbatim>\<open>np.argmax\<close>,
  \<^verbatim>\<open>IndexError\<close> by \<^verbatim>\<open>random.choice\<close> and by \<^verbatim>\<open>torch.max\<close> over an empty dimension,
  \<^verbatim>\<open>RuntimeError\<close> by \<^verbatim>\<open>torch.gather\<close>.
\<close>

datatype error = ValueError | IndexError | RuntimeError

section \<open>The replay buffer\<close>

record 's experience =
  state :: 's
  action :: nat
  reward :: real
  next_state :: 's
  "done" :: bool

text \<open>\<^verbatim>\<open>collections.deque\<close> with a bound: the items, oldest first, and \<^verbatim>\<open>maxlen\<close>.\<close>

record 'a deque =
  items :: "'a list"
  maxlen :: nat

definition deque_init :: "int \<Rightarrow> error + 'a deque" where
  "deque_init n = (if n < 0 then Inl ValueError else Inr \<lparr>items = [], maxlen = nat n\<rparr>)"

text \<open>\<^verbatim>\<open>append\<close> puts the item at the right end, then drops the leftmost item when the
  bound is exceeded.\<close>

definition deque_append :: "'a deque \<Rightarrow> 'a \<Rightarrow> 'a deque" where
  "deque_append dq x =
     (let ys = items dq @ [x]
      in dq\<lparr>items := (if maxlen dq < length ys then tl ys else ys)\<rparr>)"

text \<open>
  The elements of the deque are Python objects that \<^verbatim>\<open>sample\<close> tests against \<^verbatim>\<open>None\<close>,
  hence the option type. The \<^verbatim>\<open>seed\<close> only initialises the generator, whose draws are
  explicit arguments below.
\<close>

record 's replay_buffer =
  buffer_action_size :: int
  buffer_memory :: "'s experience option deque"
  batch_size :: int

definition ReplayBuffer_init :: "int \<Rightarrow> int \<Rightarrow> int \<Rightarrow> int \<Rightarrow> error + 's replay_buffer" where
  "ReplayBuffer_init n_actions buffer_size n_batch seed =
     (case deque_init buffer_size of
        Inl e \<Rightarrow> Inl e
      | Inr d \<Rightarrow> Inr \<lparr>buffer_action_size = n_actions, buffer_memory = d,
                     batch_size = n_batch\<rparr>)"

definition add :: "'s replay_buffer \<Rightarrow> 's \<Rightarrow> nat \<Rightarrow> real \<Rightarrow> 's \<Rightarrow> bool \<Rightarrow> 's replay_buffer" where
  "add buf s a r s' d =
     (let e = \<lparr>state = s, action = a, reward = r, next_state = s', done = d\<rparr>
      in buf\<lparr>buffer_memory := deque_append (buffer_memory buf) (Some e)\<rparr>)"

definition len :: "'s replay_buffer \<Rightarrow> nat" where
  "len buf = length (items (buffer_memory buf))"

text \<open>A sequence of \<^verbatim>\<open>add\<close> calls, one per transition of the list.\<close>

type_synonym 's transition = "'s \<times> nat \<times> real \<times> 's \<times> bool"

definition experience_of :: "'s transition \<Rightarrow> 's experience" where
  "experience_of tr =
     (case tr of (s, a, r, s', d) \<Rightarrow>
        \<lparr>state = s, action = a, reward = r, next_state = s', done = d\<rparr>)"

fun add_all :: "'s replay_buffer \<Rightarrow> 's transition list \<Rightarrow> 's replay_buffer" where
  "add_all buf [] = buf"
| "add_all buf ((s, a, r, s', d) # trs) = add_all (add buf s a r s' d) trs"

section \<open>Sampling\<close>

text \<open>
  \<^verbatim>\<open>random.sample(population, k)\<close> raises \<^verbatim>\<open>ValueError\<close> unless \<open>0 \<le> k \<le> len(population)\<close>
  and otherwise returns the elements at \<open>k\<close> positions chosen by the generator. The chosen
  positions are the explicit argument \<open>idxs\<close>; \<open>valid_draw\<close> is what the library
  guarantees about them.
\<close>

definition random_sample :: "nat list \<Rightarrow> 'a list \<Rightarrow> int \<Rightarrow> error + 'a list" where
  "random_sample idxs population k =
     (if \<not> (0 \<le> k \<and> k \<le> int (length population)) then Inl ValueError
      else Inr (map (\<lambda>j. population ! j) idxs))"

definition valid_draw :: "nat list \<Rightarrow> nat \<Rightarrow> int \<Rightarrow> bool" where
  "valid_draw idxs n k \<longleftrightarrow> int (length idxs) = k \<and> distinct idxs \<and> (\<forall>j\<in>set idxs. j < n)"

text \<open>\<^verbatim>\<open>np.vstack\<close> stacks one row per element and refuses an empty list.\<close>

definition np_vstack :: "'a list \<Rightarrow> error + 'a list" where
  "np_vstack rows = (if rows = [] then Inl ValueError else Inr rows)"

text \<open>The comprehension \<^verbatim>\<open>[e.f for e in experiences if e is not None]\<close>.\<close>

fun comprehension :: "('a \<Rightarrow> 'b) \<Rightarrow> 'a option list \<Rightarrow> 'b list" where
  "comprehension f [] = []"
| "comprehension f (None # es) = comprehension f es"
| "comprehension f (Some e # es) = f e # comprehension f es"

text \<open>\<^verbatim>\<open>.astype(np.uint8)\<close> followed by \<^verbatim>\<open>.float()\<close> on a boolean entry.\<close>

definition astype_uint8_float :: "bool \<Rightarrow> real" where
  "astype_uint8_float b = (if b then 1 else 0)"

type_synonym 's batch = "'s list \<times> nat list \<times> real list \<times> 's list \<times> real list"

definition sample :: "nat list \<Rightarrow> 's replay_buffer \<Rightarrow> error + 's batch" where
  "sample idxs buf =
     (case random_sample idxs (items (buffer_memory buf)) (batch_size buf) of
        Inl e \<Rightarrow> Inl e
      | Inr experiences \<Rightarrow>
     (case np_vstack (comprehension state experiences) of
        Inl e \<Rightarrow> Inl e
      | Inr states \<Rightarrow>
     (case np_vstack (comprehension action experiences) of
        Inl e \<Rightarrow> Inl e
      | Inr actions \<Rightarrow>
     (case np_vstack (comprehension reward experiences) of
        Inl e \<Rightarrow> Inl e
      | Inr rewards \<Rightarrow>
     (case np_vstack (comprehension next_state experiences) of
        Inl e \<Rightarrow> Inl e
      | Inr next_states \<Rightarrow>
     (case np_vstack (comprehension done experiences) of
        Inl e \<Rightarrow> Inl e
      | Inr dones \<Rightarrow>
          Inr (states, actions, rewards, next_states, map astype_uint8_float dones)))))))"

text \<open>The experiences selected by a draw, once the \<^verbatim>\<open>None\<close> test has passed over them.\<close>

definition drawn :: "nat list \<Rightarrow> 's replay_buffer \<Rightarrow> 's experience list" where
  "drawn idxs buf = comprehension (\<lambda>e. e) (map (\<lambda>j. items (buffer_memory buf) ! j) idxs)"

section \<open>Tensor operations\<close>

text \<open>
  A batch of action values is a list of rows, one per state. \<open>max_index x xs\<close> scans the
  non-empty row \<open>x # xs\<close> and returns its maximum with the index of its first occurrence,
  which is what \<^verbatim>\<open>torch.max(values, 1)\<close> and \<^verbatim>\<open>np.argmax\<close> return for a row.
\<close>

fun max_index :: "real \<Rightarrow> real list \<Rightarrow> real \<times> nat" where
  "max_index x [] = (x, 0)"
| "max_index x (y # ys) =
     (case max_index y ys of (m, i) \<Rightarrow> if x < m then (m, Suc i) else (x, 0))"

definition torch_max_row :: "real list \<Rightarrow> error + real \<times> nat" where
  "torch_max_row row = (case row of [] \<Rightarrow> Inl IndexError | x # xs \<Rightarrow> Inr (max_index x xs))"

fun torch_max_dim1 :: "real list list \<Rightarrow> error + real list \<times> nat list" where
  "torch_max_dim1 [] = Inr ([], [])"
| "torch_max_dim1 (row # rows) =
     (case torch_max_row row of
        Inl e \<Rightarrow> Inl e
      | Inr (m, i) \<Rightarrow>
          (case torch_max_dim1 rows of
             Inl e \<Rightarrow> Inl e
           | Inr (ms, ixs) \<Rightarrow> Inr (m # ms, i # ixs)))"

text \<open>\<^verbatim>\<open>torch.gather(values, 1, index)\<close> with one index per row: the entry of each row at
  its index; an index outside the row, or more indices than rows, raises.\<close>

fun torch_gather :: "real list list \<Rightarrow> nat list \<Rightarrow> error + real list" where
  "torch_gather rows [] = Inr []"
| "torch_gather [] (i # ixs) = Inl RuntimeError"
| "torch_gather (row # rows) (i # ixs) =
     (if i < length row
      then (case torch_gather rows ixs of
              Inl e \<Rightarrow> Inl e
            | Inr vs \<Rightarrow> Inr (row ! i # vs))
      else Inl RuntimeError)"

definition np_argmax :: "real list \<Rightarrow> error + nat" where
  "np_argmax values = (case values of [] \<Rightarrow> Inl ValueError | x # xs \<Rightarrow> Inr (snd (max_index x xs)))"

definition np_arange :: "int \<Rightarrow> nat list" where
  "np_arange n = [0..<nat n]"

text \<open>\<^verbatim>\<open>random.choice(seq)\<close> returns \<open>seq[j]\<close> for the position \<open>j\<close> below \<open>len(seq)\<close> chosen
  by the generator, and raises \<^verbatim>\<open>IndexError\<close> on an empty sequence.\<close>

definition random_choice :: "nat \<Rightarrow> 'a list \<Rightarrow> error + 'a" where
  "random_choice j seq = (if seq = [] then Inl IndexError else Inr (seq ! j))"

section \<open>The agent\<close>

text \<open>
  The network class \<^verbatim>\<open>QNetwork\<close> and the optimizer come from outside the file and are
  parameters of the model. A network is its ordered list of parameter tensors (elements of
  a real vector space); \<open>forward training params s\<close> is the row of action values of
  state \<open>s\<close>; \<open>optimizer_step\<close> stands for \<^verbatim>\<open>zero_grad\<close>, \<^verbatim>\<open>backward\<close> on the mean squared
  error between the gathered outputs and the targets, and \<^verbatim>\<open>optimizer.step()\<close>: from the
  optimizer state, the online parameters, the states, the actions and the targets it yields
  the new optimizer state and the new online parameters.
\<close>

record ('s, 'v, 'o) collaborators =
  QNetwork :: "int \<Rightarrow> int \<Rightarrow> int \<Rightarrow> bool \<Rightarrow> 'v list"
  forward :: "bool \<Rightarrow> 'v list \<Rightarrow> 's \<Rightarrow> real list"
  Adam :: "'v list \<Rightarrow> 'o"
  optimizer_step :: "'o \<Rightarrow> 'v list \<Rightarrow> 's list \<Rightarrow> nat list \<Rightarrow> real list \<Rightarrow> 'o \<times> 'v list"

record ('s, 'v, 'o) agent =
  state_size :: int
  action_size :: int
  double_dqn :: bool
  dueling :: bool
  qnetwork_local :: "'v list"
  qnetwork_target :: "'v list"
  optimizer :: 'o
  memory :: "'s replay_buffer"
  t_step :: nat

definition Agent_init ::
  "('s, 'v, 'o) collaborators \<Rightarrow> int \<Rightarrow> int \<Rightarrow> int \<Rightarrow> bool \<Rightarrow> bool \<Rightarrow> error + ('s, 'v, 'o) agent" where
  "Agent_init env n_states n_actions seed ddqn duel =
     (let local_params = QNetwork env n_states n_actions seed duel;
          target_params = QNetwork env n_states n_actions seed duel
      in case ReplayBuffer_init n_actions BUFFER_SIZE BATCH_SIZE seed of
           Inl e \<Rightarrow> Inl e
         | Inr m \<Rightarrow>
             Inr \<lparr>state_size = n_states, action_size = n_actions, double_dqn = ddqn,
                  dueling = duel, qnetwork_local = local_params,
                  qnetwork_target = target_params, optimizer = Adam env local_params,
                  memory = m, t_step = 0\<rparr>)"

text \<open>
  \<open>act\<close>: \<open>u\<close> is the value of \<^verbatim>\<open>random.random()\<close>, a number with \<open>0 \<le> u < 1\<close>, and \<open>j\<close>
  the position chosen inside \<^verbatim>\<open>random.choice\<close>.
\<close>

definition act ::
  "('s, 'v, 'o) collaborators \<Rightarrow> ('s, 'v, 'o) agent \<Rightarrow> 's \<Rightarrow> real \<Rightarrow> real \<Rightarrow> nat \<Rightarrow> error + nat" where
  "act env ag s eps u j =
     (let action_values = forward env False (qnetwork_local ag) s
      in if u > eps then np_argmax action_values
         else random_choice j (np_arange (action_size ag)))"

text \<open>The bootstrap values of \<open>learn\<close>, one per row of \<open>next_states\<close>.\<close>

definition next_max_values ::
  "('s, 'v, 'o) collaborators \<Rightarrow> ('s, 'v, 'o) agent \<Rightarrow> 's list \<Rightarrow> error + real list" where
  "next_max_values env ag next_states =
     (let target_values = map (forward env True (qnetwork_target ag)) next_states
      in if double_dqn ag
         then (let local_next_values = map (forward env True (qnetwork_local ag)) next_states
               in case torch_max_dim1 local_next_values of
                    Inl e \<Rightarrow> Inl e
                  | Inr (_, local_next_actions) \<Rightarrow> torch_gather target_values local_next_actions)
         else (case torch_max_dim1 target_values of
                 Inl e \<Rightarrow> Inl e
               | Inr (next_max, next_best_actions) \<Rightarrow> Inr next_max))"

text \<open>
  The shapes \<open>learn\<close> relies on: every row of target action values on the next states is
  non-empty and, when the online network selects the action, its row has the width of the
  target row (both networks are built with the same \<^verbatim>\<open>action_size\<close>).
\<close>

definition action_rows_ok ::
  "('s, 'v, 'o) collaborators \<Rightarrow> ('s, 'v, 'o) agent \<Rightarrow> 's list \<Rightarrow> bool" where
  "action_rows_ok env ag next_states \<longleftrightarrow>
     (\<forall>s\<in>set next_states.
        forward env True (qnetwork_target ag) s \<noteq> []
      \<and> (double_dqn ag \<longrightarrow>
           length (forward env True (qnetwork_local ag) s) =
           length (forward env True (qnetwork_target ag) s)))"

text \<open>\<^verbatim>\<open>rewards + gamma * next_max_values * (1 - dones)\<close>, entry by entry, for columns of
  one length, as \<open>sample\<close> returns them.\<close>

definition td_targets :: "real list \<Rightarrow> real \<Rightarrow> real list \<Rightarrow> real list \<Rightarrow> real list" where
  "td_targets rewards gamma next_max dones =
     map (\<lambda>(r, v, d). r + gamma * v * (1 - d)) (zip rewards (zip next_max dones))"

definition learn_targets ::
  "('s, 'v, 'o) collaborators \<Rightarrow> ('s, 'v, 'o) agent \<Rightarrow> 's batch \<Rightarrow> real \<Rightarrow> error + real list" where
  "learn_targets env ag experiences gamma =
     (case experiences of (states, actions, rewards, next_states, dones) \<Rightarrow>
        (case next_max_values env ag next_states of
           Inl e \<Rightarrow> Inl e
         | Inr next_max \<Rightarrow> Inr (td_targets rewards gamma next_max dones)))"

text \<open>
  \<open>soft_update\<close> walks \<^verbatim>\<open>zip(target_model.parameters(), local_model.parameters())\<close> and
  overwrites each target parameter; parameters of the target beyond the length of the
  online list are not visited.
\<close>

definition soft_update :: "'v::real_vector list \<Rightarrow> 'v list \<Rightarrow> real \<Rightarrow> 'v list" where
  "soft_update local_model target_model tau =
     map (\<lambda>(target_param, local_param). tau *\<^sub>R local_param + (1 - tau) *\<^sub>R target_param)
       (zip target_model local_model)
     @ drop (length local_model) target_model"

fun soft_updates :: "nat \<Rightarrow> 'v::real_vector list \<Rightarrow> 'v list \<Rightarrow> real \<Rightarrow> 'v list" where
  "soft_updates 0 local_model target_model tau = target_model"
| "soft_updates (Suc n) local_model target_model tau =
     soft_updates n local_model (soft_update local_model target_model tau) tau"

definition learn ::
  "('s, 'v::real_vector, 'o) collaborators \<Rightarrow> ('s, 'v, 'o) agent \<Rightarrow> 's batch \<Rightarrow> real
     \<Rightarrow> error + ('s, 'v, 'o) agent" where
  "learn env ag experiences gamma =
     (case experiences of (states, actions, rewards, next_states, dones) \<Rightarrow>
        (case learn_targets env ag experiences gamma of
           Inl e \<Rightarrow> Inl e
         | Inr targets \<Rightarrow>
             (let outputs = map (forward env True (qnetwork_local ag)) states
              in case torch_gather outputs actions of
                   Inl e \<Rightarrow> Inl e
                 | Inr selected_outputs \<Rightarrow>
                     (case optimizer_step env (optimizer ag) (qnetwork_local ag)
                             states actions targets of
                        (opt, local_params) \<Rightarrow>
                          Inr (ag\<lparr>optimizer := opt, qnetwork_local := local_params,
                                  qnetwork_target :=
                                    soft_update local_params (qnetwork_target ag) TAU\<rparr>)))))"

text \<open>
  The result of one \<open>step\<close> call: the agent as the call leaves it, the batch \<open>learn\<close> was
  invoked with when it was, and the exception that ended the call, if any. An exception
  of \<open>sample\<close> or \<open>learn\<close> comes after the transition is stored and the counter is set.
\<close>

record ('s, 'v, 'o) outcome =
  agent_after :: "('s, 'v, 'o) agent"
  learn_call :: "'s batch option"
  raised :: "error option"

definition step ::
  "('s, 'v::real_vector, 'o) collaborators \<Rightarrow> nat list \<Rightarrow> ('s, 'v, 'o) agent
     \<Rightarrow> 's \<Rightarrow> nat \<Rightarrow> real \<Rightarrow> 's \<Rightarrow> bool \<Rightarrow> ('s, 'v, 'o) outcome" where
  "step env idxs ag s a r s' d =
     (let ag1 = ag\<lparr>memory := add (memory ag) s a r s' d\<rparr>;
          ag2 = ag1\<lparr>t_step := (t_step ag1 + 1) mod UPDATE_EVERY\<rparr>
      in if t_step ag2 = 0
         then if BATCH_SIZE < int (len (memory ag2))
              then (case sample idxs (memory ag2) of
                      Inl e \<Rightarrow> \<lparr>agent_after = ag2, learn_call = None, raised = Some e\<rparr>
                    | Inr experiences \<Rightarrow>
                        (case learn env ag2 experiences GAMMA of
                           Inl e \<Rightarrow> \<lparr>agent_after = ag2, learn_call = Some experiences,
                                      raised = Some e\<rparr>
                         | Inr ag3 \<Rightarrow> \<lparr>agent_after = ag3, learn_call = Some experiences,
                                        raised = None\<rparr>))
              else \<lparr>agent_after = ag2, learn_call = None, raised = None\<rparr>
         else \<lparr>agent_after = ag2, learn_call = None, raised = None\<rparr>)"

text \<open>
  A run of the caller's loop: one \<open>step\<close> per transition, each with the draw its
  \<open>sample\<close> call would consume; the run ends with the first call that raises.
\<close>

fun run ::
  "('s, 'v::real_vector, 'o) collaborators \<Rightarrow> ('s, 'v, 'o) agent
     \<Rightarrow> ('s transition \<times> nat list) list \<Rightarrow> ('s, 'v, 'o) outcome list" where
  "run env ag [] = []"
| "run env ag (((s, a, r, s', d), idxs) # rest) =
     (case step env idxs ag s a r s' d of out \<Rightarrow>
        out # (if raised out = None then run env (agent_after out) rest else []))"

text \<open>
  What the constructor establishes and \<open>step\<close> keeps: the buffer of the agent samples
  batches of \<open>BATCH_SIZE\<close> and holds no \<^verbatim>\<open>None\<close>.
\<close>

definition agent_inv :: "('s, 'v, 'o) agent \<Rightarrow> bool" where
  "agent_inv ag \<longleftrightarrow>
     batch_size (memory ag) = BATCH_SIZE \<and> None \<notin> set (items (buffer_memory (memory ag)))"


section \<open>Parameter tensors as objects\<close>

text \<open>
  Which parameters a gradient step may change depends on object identity: the optimizer
  holds references to parameter tensors, \<^verbatim>\<open>backward\<close> writes the \<^verbatim>\<open>grad\<close> of the leaves of
  the loss's autograd graph, and \<open>soft_update\<close> overwrites \<^verbatim>\<open>data\<close> in place. For this the
  parameter tensors are objects in a store, addressed by numbers; each has its \<^verbatim>\<open>data\<close> and
  its \<^verbatim>\<open>grad\<close> (\<^verbatim>\<open>None\<close> until a backward pass reaches it).
\<close>

type_synonym addr = nat

record 'v heap =
  data :: "addr \<Rightarrow> 'v"
  grad :: "addr \<Rightarrow> 'v option"

text \<open>
  The objects \<open>Agent.__init__\<close> creates: the parameter lists of the two networks it
  constructs, and the list the optimizer is built from, which is
  \<^verbatim>\<open>self.qnetwork_local.parameters()\<close>.
\<close>

record parameter_objects =
  local_parameters :: "addr list"
  target_parameters :: "addr list"
  optimizer_parameters :: "addr list"

definition Agent_init_objects :: "addr list \<Rightarrow> addr list \<Rightarrow> parameter_objects" where
  "Agent_init_objects local_ps target_ps =
     \<lparr>local_parameters = local_ps, target_parameters = target_ps,
      optimizer_parameters = local_ps\<rparr>"

text \<open>
  A tensor computed in \<open>learn\<close> is followed through the autograd graph by its leaves, the
  parameter tensors a backward pass from it reaches: the output of a network has the
  network's parameters as leaves, \<^verbatim>\<open>detach()\<close> cuts the tensor from the graph, the index
  result of \<^verbatim>\<open>torch.max\<close> is an integer tensor without graph, \<^verbatim>\<open>torch.gather\<close> and
  arithmetic pass on the leaves of their arguments, and the tensors of the batch have none.
\<close>

definition forward_leaves :: "addr list \<Rightarrow> addr set" where
  "forward_leaves params = set params"

definition detach :: "addr set \<Rightarrow> addr set" where
  "detach leaves = {}"

definition max_indices :: "addr set \<Rightarrow> addr set" where
  "max_indices leaves = {}"

definition gather_leaves :: "addr set \<Rightarrow> addr set \<Rightarrow> addr set" where
  "gather_leaves input index = input \<union> index"

definition batch_tensor :: "addr set" where
  "batch_tensor = {}"

text \<open>The leaves of \<^verbatim>\<open>loss\<close>, following \<open>learn\<close> statement by statement.\<close>

definition learn_loss_leaves :: "bool \<Rightarrow> parameter_objects \<Rightarrow> addr set" where
  "learn_loss_leaves ddqn objs =
     (let target_values = detach (forward_leaves (target_parameters objs));
          next_max_values =
            (if ddqn
             then (let local_next_values = forward_leaves (local_parameters objs);
                       local_next_actions = detach (max_indices local_next_values)
                   in gather_leaves target_values local_next_actions)
             else target_values);
          targets = batch_tensor \<union> (next_max_values \<union> batch_tensor);
          outputs = forward_leaves (local_parameters objs);
          selected_outputs = gather_leaves outputs batch_tensor
      in selected_outputs \<union> targets)"

text \<open>
  \<^verbatim>\<open>optimizer.zero_grad()\<close> resets the \<^verbatim>\<open>grad\<close> of the optimizer's parameters (to zero or to
  \<^verbatim>\<open>None\<close>, by the library version: the function \<open>cleared\<close>); \<^verbatim>\<open>loss.backward()\<close> adds the
  gradient into the \<^verbatim>\<open>grad\<close> of every leaf of the loss; \<^verbatim>\<open>optimizer.step()\<close> gives each of
  the optimizer's parameters that has a \<^verbatim>\<open>grad\<close> a new value by the update rule of the
  optimizer. The gradient values and the update rule are parameters of the model.
\<close>

definition zero_grad ::
  "parameter_objects \<Rightarrow> ('v option \<Rightarrow> 'v option) \<Rightarrow> 'v heap \<Rightarrow> 'v heap" where
  "zero_grad objs cleared h =
     h\<lparr>grad := (\<lambda>p. if p \<in> set (optimizer_parameters objs) then cleared (grad h p)
                      else grad h p)\<rparr>"

definition backward :: "addr set \<Rightarrow> (addr \<Rightarrow> 'v::plus) \<Rightarrow> 'v heap \<Rightarrow> 'v heap" where
  "backward leaves gradient h =
     h\<lparr>grad := (\<lambda>p. if p \<in> leaves
                      then (case grad h p of None \<Rightarrow> Some (gradient p)
                                            | Some g \<Rightarrow> Some (g + gradient p))
                      else grad h p)\<rparr>"

definition optimizer_step_heap ::
  "parameter_objects \<Rightarrow> (addr \<Rightarrow> 'v \<Rightarrow> 'v \<Rightarrow> 'v) \<Rightarrow> 'v heap \<Rightarrow> 'v heap" where
  "optimizer_step_heap objs update h =
     h\<lparr>data := (\<lambda>p. if p \<in> set (optimizer_parameters objs)
                      then (case grad h p of None \<Rightarrow> data h p
                                            | Some g \<Rightarrow> update p (data h p) g)
                      else data h p)\<rparr>"

text \<open>The loop of \<open>soft_update\<close> over the zipped parameter lists, writing in place.\<close>

fun soft_update_heap :: "(addr \<times> addr) list \<Rightarrow> real \<Rightarrow> 'v::real_vector heap \<Rightarrow> 'v heap" where
  "soft_update_heap [] tau h = h"
| "soft_update_heap ((target_param, local_param) # ps) tau h =
     soft_update_heap ps tau
       (h\<lparr>data := (data h)(target_param :=
             tau *\<^sub>R data h local_param + (1 - tau) *\<^sub>R data h target_param)\<rparr>)"

text \<open>The gradient-descent part of \<open>learn\<close> (\<^verbatim>\<open>zero_grad\<close>, \<^verbatim>\<open>backward\<close>, \<^verbatim>\<open>step\<close>), and
  \<open>learn\<close> as a whole, on the store.\<close>

definition gradient_step ::
  "bool \<Rightarrow> parameter_objects \<Rightarrow> ('v option \<Rightarrow> 'v option) \<Rightarrow> (addr \<Rightarrow> 'v::plus)
     \<Rightarrow> (addr \<Rightarrow> 'v \<Rightarrow> 'v \<Rightarrow> 'v) \<Rightarrow> 'v heap \<Rightarrow> 'v heap" where
  "gradient_step ddqn objs cleared gradient update h =
     optimizer_step_heap objs update
       (backward (learn_loss_leaves ddqn objs) gradient (zero_grad objs cleared h))"

definition learn_heap ::
  "bool \<Rightarrow> parameter_objects \<Rightarrow> ('v option \<Rightarrow> 'v option) \<Rightarrow> (addr \<Rightarrow> 'v::real_vector)
     \<Rightarrow> (addr \<Rightarrow> 'v \<Rightarrow> 'v \<Rightarrow> 'v) \<Rightarrow> 'v heap \<Rightarrow> 'v heap" where
  "learn_heap ddqn objs cleared gradient update h =
     soft_update_heap (zip (target_parameters objs) (local_parameters objs)) TAU
       (gradient_step ddqn objs cleared gradient update h)"

section \<open>Example inputs\<close>

definition example_experiences :: "nat experience option list" where
  "example_experiences =
     [Some \<lparr>state = 10, action = 0, reward = 1, next_state = 11, done = False\<rparr>,
      Some \<lparr>state = 11, action = 1, reward = 2, next_state = 12, done = True\<rparr>,
      Some \<lparr>state = 12, action = 1, reward = 3, next_state = 13, done = False\<rparr>]"

definition example_buffer :: "int \<Rightarrow> nat replay_buffer" where
  "example_buffer k =
     \<lparr>buffer_action_size = 2,
      buffer_memory = \<lparr>items = example_experiences, maxlen = 5\<rparr>,
      batch_size = k\<rparr>"

text \<open>A two-action table network whose row of action values is its parameter list, with an
  optimizer that moves every online parameter by one.\<close>

definition example_env :: "(nat, real, unit) collaborators" where
  "example_env =
     \<lparr>QNetwork = (\<lambda>n_states n_actions seed duel. [0, 0]),
      forward = (\<lambda>training params s. params),
      Adam = (\<lambda>params. ()),
      optimizer_step = (\<lambda>opt params states actions targets. (opt, map (\<lambda>p. p + 1) params))\<rparr>"

definition example_agent :: "bool \<Rightarrow> (nat, real, unit) agent" where
  "example_agent ddqn =
     \<lparr>state_size = 1, action_size = 2, double_dqn = ddqn, dueling = False,
      qnetwork_local = [1, 5], qnetwork_target = [9, 2], optimizer = (),
      memory = example_buffer 2, t_step = 3\<rparr>"


text \<open>A store with two parameters per network, the online ones at addresses 0 and 1.\<close>

definition example_heap :: "real heap" where
  "example_heap = \<lparr>data = (\<lambda>p. real p), grad = (\<lambda>p. None)\<rparr>"

section \<open>The capacity invariant\<close>

lemma add_items:
  "items (buffer_memory (add buf s a r s' d)) =
     (let ys = items (buffer_memory buf) @ [Some (experience_of (s, a, r, s', d))]
      in if maxlen (buffer_memory buf) < length ys then tl ys else ys)"
  by (simp add: add_def deque_append_def experience_of_def Let_def)

lemma add_maxlen: "maxlen (buffer_memory (add buf s a r s' d)) = maxlen (buffer_memory buf)"
  by (simp add: add_def deque_append_def Let_def)

lemma add_batch_size: "batch_size (add buf s a r s' d) = batch_size buf"
  by (simp add: add_def)

lemma add_all_maxlen: "maxlen (buffer_memory (add_all buf trs)) = maxlen (buffer_memory buf)"
  by (induction buf trs rule: add_all.induct) (simp_all add: add_maxlen)

lemma add_all_batch_size: "batch_size (add_all buf trs) = batch_size buf"
  by (induction buf trs rule: add_all.induct) (simp_all add: add_batch_size)

lemma add_all_snoc:
  "add_all buf (trs @ [(s, a, r, s', d)]) = add (add_all buf trs) s a r s' d"
  by (induction buf trs rule: add_all.induct) simp_all

lemma trim_snoc:
  "(let ys = drop (length xs - m) xs @ [e] in if m < length ys then tl ys else ys) =
     drop (Suc (length xs) - m) (xs @ [e])"
proof (cases "length xs < m")
  case True
  then show ?thesis by (simp add: Let_def)
next
  case False
  then have le: "m \<le> length xs" by simp
  then have n: "Suc (length xs) - m = Suc (length xs - m)" by simp
  have "tl (drop (length xs - m) xs @ [e]) = drop (Suc 0) (drop (length xs - m) xs @ [e])"
    by (simp only: drop_Suc drop_0)
  also have "\<dots> = drop (Suc 0) (drop (length xs - m) (xs @ [e]))"
    by simp
  also have "\<dots> = drop (Suc (length xs - m)) (xs @ [e])"
    by (simp only: drop_drop) simp
  finally show ?thesis using le n by (simp add: Let_def del: drop_append tl_append2)
qed

lemma add_all_items:
  assumes "length (items (buffer_memory buf)) \<le> maxlen (buffer_memory buf)"
  shows "items (buffer_memory (add_all buf trs)) =
           drop (length (items (buffer_memory buf) @ map (Some \<circ> experience_of) trs)
                   - maxlen (buffer_memory buf))
             (items (buffer_memory buf) @ map (Some \<circ> experience_of) trs)"
proof (induction trs rule: rev_induct)
  case Nil
  from assms show ?case by simp
next
  case (snoc t trs)
  obtain s a r s' d where t: "t = (s, a, r, s', d)" by (cases t) auto
  let ?all = "items (buffer_memory buf) @ map (Some \<circ> experience_of) trs"
  let ?m = "maxlen (buffer_memory buf)"
  have "items (buffer_memory (add_all buf (trs @ [t]))) =
          (let ys = drop (length ?all - ?m) ?all @ [Some (experience_of t)]
           in if ?m < length ys then tl ys else ys)"
    unfolding t add_all_snoc add_items add_all_maxlen snoc.IH ..
  also have "\<dots> = drop (Suc (length ?all) - ?m) (?all @ [Some (experience_of t)])"
    by (rule trim_snoc)
  finally have calc: "items (buffer_memory (add_all buf (trs @ [t]))) =
      drop (Suc (length ?all) - ?m) (?all @ [Some (experience_of t)])" .
  have eq: "items (buffer_memory buf) @ map (Some \<circ> experience_of) (trs @ [t]) =
      ?all @ [Some (experience_of t)]"
    by simp
  show ?case
    by (simp only: eq length_append_singleton calc)
qed

text \<open>
  C4. For a buffer constructed with capacity \<open>C\<close> and any sequence of \<open>add\<close> calls: the
  size never exceeds \<open>C\<close>, and the buffer holds exactly the most recent \<open>C\<close> of the inserted
  experiences in insertion order; in particular after \<open>C + k\<close> insertions the oldest \<open>k\<close>
  are gone and the remaining \<open>C\<close> are kept in order.
\<close>

theorem replay_buffer_capacity:
  assumes "ReplayBuffer_init a C b seed = Inr buf"
  shows "len (add_all buf trs) \<le> nat C
       \<and> items (buffer_memory (add_all buf trs)) =
           map (Some \<circ> experience_of) (drop (length trs - nat C) trs)
       \<and> (length trs = nat C + k \<longrightarrow>
            len (add_all buf trs) = nat C
          \<and> items (buffer_memory (add_all buf trs)) = map (Some \<circ> experience_of) (drop k trs))"
proof -
  from assms have C: "0 \<le> C" and m: "maxlen (buffer_memory buf) = nat C"
    and e: "items (buffer_memory buf) = []"
    by (auto simp: ReplayBuffer_init_def deque_init_def split: if_splits)
  have it: "items (buffer_memory (add_all buf trs)) =
              map (Some \<circ> experience_of) (drop (length trs - nat C) trs)"
    using add_all_items [of buf trs] by (simp add: e m drop_map)
  then have "len (add_all buf trs) \<le> nat C"
    by (simp add: len_def)
  moreover have "length trs = nat C + k \<longrightarrow>
      len (add_all buf trs) = nat C
    \<and> items (buffer_memory (add_all buf trs)) = map (Some \<circ> experience_of) (drop k trs)"
    using it by (simp add: len_def)
  ultimately show ?thesis using it by blast
qed

theorem replay_buffer_capacity_witness:
  "(ReplayBuffer_init 4 2 1 0 :: error + nat replay_buffer) = Inr \<lparr>buffer_action_size = 4,
       buffer_memory = \<lparr>items = [], maxlen = 2\<rparr>, batch_size = 1\<rparr>
   \<and> items (buffer_memory (add_all \<lparr>buffer_action_size = 4,
       buffer_memory = \<lparr>items = [], maxlen = 2\<rparr>, batch_size = 1\<rparr>
       [((1::nat), 0, 1, 2, False), (2, 1, 0, 3, False), (3, 0, 5, 4, True)])) =
     [Some \<lparr>state = 2, action = 1, reward = 0, next_state = 3, done = False\<rparr>,
      Some \<lparr>state = 3, action = 0, reward = 5, next_state = 4, done = True\<rparr>]"
proof -
  have h: "(ReplayBuffer_init 4 2 1 0 :: error + nat replay_buffer) = Inr \<lparr>buffer_action_size = 4,
       buffer_memory = \<lparr>items = [], maxlen = 2\<rparr>, batch_size = 1\<rparr>"
    by (simp add: ReplayBuffer_init_def deque_init_def)
  show ?thesis
    using replay_buffer_capacity [OF h,
        of "[((1::nat), 0, 1, 2, False), (2, 1, 0, 3, False), (3, 0, 5, 4, True)]" 1] h
    by (simp add: experience_of_def)
qed

section \<open>Properties of sampling\<close>

lemma comprehension_Some: "comprehension f (map Some es) = map f es"
  by (induction es) simp_all

lemma selection_all_Some:
  assumes "None \<notin> set xs" "\<forall>j\<in>set idxs. j < length xs"
  shows "map (\<lambda>j. xs ! j) idxs = map Some (map (\<lambda>j. the (xs ! j)) idxs)"
proof -
  have "xs ! j = Some (the (xs ! j))" if "j \<in> set idxs" for j
  proof -
    from that assms(2) have "xs ! j \<in> set xs" by simp
    with assms(1) have "xs ! j \<noteq> None" by metis
    then show ?thesis by simp
  qed
  then show ?thesis by simp
qed

lemma drawn_eq:
  assumes "None \<notin> set (items (buffer_memory buf))" "\<forall>j\<in>set idxs. j < len buf"
  shows "map (\<lambda>j. items (buffer_memory buf) ! j) idxs = map Some (drawn idxs buf)"
    and "length (drawn idxs buf) = length idxs"
proof -
  have sel: "map (\<lambda>j. items (buffer_memory buf) ! j) idxs =
      map Some (map (\<lambda>j. the (items (buffer_memory buf) ! j)) idxs)"
    using assms by (intro selection_all_Some) (simp_all add: len_def)
  then have d: "drawn idxs buf = map (\<lambda>j. the (items (buffer_memory buf) ! j)) idxs"
    unfolding drawn_def by (simp only: comprehension_Some) simp
  show "map (\<lambda>j. items (buffer_memory buf) ! j) idxs = map Some (drawn idxs buf)"
    using sel d by simp
  show "length (drawn idxs buf) = length idxs"
    using d by simp
qed


lemma sample_raises_zero:
  assumes "batch_size buf = 0" "valid_draw idxs (len buf) (batch_size buf)"
  shows "sample idxs buf = Inl ValueError"
  using assms by (simp add: sample_def random_sample_def np_vstack_def valid_draw_def)

lemma sample_returns:
  assumes none: "None \<notin> set (items (buffer_memory buf))"
    and draw: "valid_draw idxs (len buf) (batch_size buf)"
    and k: "1 \<le> batch_size buf" "batch_size buf \<le> int (len buf)"
  shows "sample idxs buf =
     Inr (map state (drawn idxs buf), map action (drawn idxs buf), map reward (drawn idxs buf),
          map next_state (drawn idxs buf), map (astype_uint8_float \<circ> done) (drawn idxs buf))"
proof -
  from draw have rng: "\<forall>j\<in>set idxs. j < len buf" and n: "int (length idxs) = batch_size buf"
    by (simp_all add: valid_draw_def)
  note sel = drawn_eq [OF none rng]
  from n k sel(2) have ne: "drawn idxs buf \<noteq> []" by auto
  have rs: "random_sample idxs (items (buffer_memory buf)) (batch_size buf) =
      Inr (map Some (drawn idxs buf))"
    using k sel(1) by (simp add: random_sample_def len_def)
  show ?thesis
    unfolding sample_def rs using ne
    by (simp add: comprehension_Some np_vstack_def)
qed

lemma add_all_no_None:
  assumes "ReplayBuffer_init a C k seed = Inr buf"
  shows "None \<notin> set (items (buffer_memory (add_all buf trs)))"
proof -
  from assms have e: "items (buffer_memory buf) = []"
    by (auto simp: ReplayBuffer_init_def deque_init_def split: if_splits)
  have "items (buffer_memory (add_all buf trs)) =
      drop (length trs - maxlen (buffer_memory buf)) (map (Some \<circ> experience_of) trs)"
    using add_all_items [of buf trs] by (simp add: e)
  then have "set (items (buffer_memory (add_all buf trs))) \<subseteq> set (map (Some \<circ> experience_of) trs)"
    by (simp only: set_drop_subset)
  then show ?thesis by auto
qed




lemma sample_example:
  "sample [2, 0] (example_buffer 2) = Inr ([12, 10], [1, 0], [3, 1], [13, 11], [0, 0])"
  by (simp add: example_buffer_def example_experiences_def sample_def random_sample_def
        np_vstack_def astype_uint8_float_def)

text \<open>
  C10, as stated, fails when the construction-time batch size is zero: the buffer holds at
  least zero experiences, yet the call raises instead of returning arrays.
\<close>

theorem sample_shape_counterexample:
  "(ReplayBuffer_init 2 5 0 0 :: error + nat replay_buffer) =
     Inr \<lparr>buffer_action_size = 2, buffer_memory = \<lparr>items = [], maxlen = 5\<rparr>, batch_size = 0\<rparr>
   \<and> batch_size (add_all \<lparr>buffer_action_size = 2, buffer_memory = \<lparr>items = [], maxlen = 5\<rparr>,
          batch_size = 0\<rparr> [((7::nat), 1, 1, 8, True)])
       \<le> int (len (add_all \<lparr>buffer_action_size = 2, buffer_memory = \<lparr>items = [], maxlen = 5\<rparr>,
          batch_size = 0\<rparr> [((7::nat), 1, 1, 8, True)]))
   \<and> sample [] (add_all \<lparr>buffer_action_size = 2, buffer_memory = \<lparr>items = [], maxlen = 5\<rparr>,
          batch_size = 0\<rparr> [((7::nat), 1, 1, 8, True)]) = Inl ValueError"
  by (simp add: ReplayBuffer_init_def deque_init_def add_def deque_append_def len_def
        sample_def random_sample_def np_vstack_def)

text \<open>
  C10, amended. \<open>sample\<close> takes no batch-size argument. For a buffer built by the
  constructor and \<open>add\<close> calls, whenever the construction-time batch size is at least one and
  at most the current size, the call returns five parallel arrays, each of length exactly
  the batch size; no stored or drawn element is \<^verbatim>\<open>None\<close>, so the \<^verbatim>\<open>None\<close> test of the
  comprehensions removes nothing.
\<close>

theorem sample_batch_shape:
  assumes "ReplayBuffer_init a C k seed = Inr buf0"
    and "1 \<le> k" "k \<le> int (len (add_all buf0 trs))"
    and "valid_draw idxs (len (add_all buf0 trs)) k"
  shows "\<exists>states actions rewards next_states dones.
           sample idxs (add_all buf0 trs) = Inr (states, actions, rewards, next_states, dones)
         \<and> int (length states) = k \<and> int (length actions) = k \<and> int (length rewards) = k
         \<and> int (length next_states) = k \<and> int (length dones) = k
         \<and> None \<notin> set (items (buffer_memory (add_all buf0 trs)))
         \<and> None \<notin> set (map (\<lambda>j. items (buffer_memory (add_all buf0 trs)) ! j) idxs)
         \<and> length (drawn idxs (add_all buf0 trs)) = length idxs"
proof -
  let ?buf = "add_all buf0 trs"
  from assms(1) have bs: "batch_size ?buf = k"
    by (auto simp: add_all_batch_size ReplayBuffer_init_def split: sum.splits)
  have none: "None \<notin> set (items (buffer_memory ?buf))"
    using assms(1) by (rule add_all_no_None)
  from assms(4) have rng: "\<forall>j\<in>set idxs. j < len ?buf" and n: "int (length idxs) = k"
    by (simp_all add: valid_draw_def)
  note sel = drawn_eq [OF none rng]
  have "sample idxs ?buf =
     Inr (map state (drawn idxs ?buf), map action (drawn idxs ?buf), map reward (drawn idxs ?buf),
          map next_state (drawn idxs ?buf), map (astype_uint8_float \<circ> done) (drawn idxs ?buf))"
    using none assms(2-4) by (intro sample_returns) (simp_all add: bs)
  moreover have "None \<notin> set (map (\<lambda>j. items (buffer_memory ?buf) ! j) idxs)"
    unfolding sel(1) by auto
  ultimately show ?thesis
    using sel(2) n none by simp
qed

theorem sample_batch_shape_witness:
  "(ReplayBuffer_init 2 2 2 0 :: error + nat replay_buffer) =
     Inr \<lparr>buffer_action_size = 2, buffer_memory = \<lparr>items = [], maxlen = 2\<rparr>, batch_size = 2\<rparr>
   \<and> valid_draw [1, 0] (len (add_all \<lparr>buffer_action_size = 2,
            buffer_memory = \<lparr>items = [], maxlen = 2\<rparr>, batch_size = 2\<rparr>
            [((7::nat), 1, 1, 8, True), (8, 0, 2, 9, False), (9, 0, 3, 10, False)])) 2
   \<and> (\<exists>states actions rewards next_states dones.
        sample [1, 0] (add_all \<lparr>buffer_action_size = 2, buffer_memory = \<lparr>items = [], maxlen = 2\<rparr>,
            batch_size = 2\<rparr> [((7::nat), 1, 1, 8, True), (8, 0, 2, 9, False), (9, 0, 3, 10, False)])
          = Inr (states, actions, rewards, next_states, dones)
        \<and> int (length states) = 2 \<and> int (length actions) = 2 \<and> int (length rewards) = 2
        \<and> int (length next_states) = 2 \<and> int (length dones) = 2)"
proof -
  let ?b = "\<lparr>buffer_action_size = 2, buffer_memory = \<lparr>items = [], maxlen = 2\<rparr>,
            batch_size = 2\<rparr> :: nat replay_buffer"
  let ?trs = "[((7::nat), 1::nat, 1::real, 8::nat, True), (8, 0, 2, 9, False), (9, 0, 3, 10, False)]"
  have h: "ReplayBuffer_init 2 2 2 0 = Inr ?b"
    by (simp add: ReplayBuffer_init_def deque_init_def)
  have l: "len (add_all ?b ?trs) = 2"
    by (simp add: add_def deque_append_def len_def)
  have v: "valid_draw [1, 0] (len (add_all ?b ?trs)) 2"
    unfolding l by (simp add: valid_draw_def)
  have k1: "(1::int) \<le> 2" by simp
  have k2: "(2::int) \<le> int (len (add_all ?b ?trs))" unfolding l by simp
  from sample_batch_shape [OF h k1 k2 v] h v show ?thesis by blast
qed

section \<open>Soft update of the target parameters\<close>

lemma soft_update_length: "length (soft_update local_model target_model tau) = length target_model"
  by (simp add: soft_update_def)

lemma soft_update_nth:
  assumes "i < length target_model" "i < length local_model"
  shows "soft_update local_model target_model tau ! i =
           tau *\<^sub>R local_model ! i + (1 - tau) *\<^sub>R target_model ! i"
  using assms by (simp add: soft_update_def nth_append)

lemma soft_update_nth_rest:
  assumes "i < length target_model" "length local_model \<le> i"
  shows "soft_update local_model target_model tau ! i = target_model ! i"
  using assms by (simp add: soft_update_def nth_append min_def)

lemma soft_updates_length: "length (soft_updates n local_model target_model tau) = length target_model"
  by (induction n arbitrary: target_model) (simp_all add: soft_update_length)






section \<open>Bootstrap values and targets of learn\<close>

lemma max_index_props:
  assumes "max_index x xs = (m, i)"
  shows "m = Max (set (x # xs)) \<and> i < length (x # xs) \<and> (x # xs) ! i = m
       \<and> (\<forall>j<i. (x # xs) ! j < m)"
  using assms
proof (induction xs arbitrary: x m i)
  case Nil
  then show ?case by simp
next
  case (Cons y ys)
  obtain m' i' where r: "max_index y ys = (m', i')" by (cases "max_index y ys")
  note ih = Cons.IH [OF r]
  show ?case
  proof (cases "x < m'")
    case True
    with Cons.prems r have m: "m = m'" and i: "i = Suc i'" by simp_all
    have mx: "Max (set (x # y # ys)) = max x (Max (set (y # ys)))"
      by simp
    have lt: "(x # y # ys) ! j < m" if "j < i" for j
    proof (cases j)
      case 0
      with True m show ?thesis by simp
    next
      case (Suc j')
      with that i have "j' < i'" by simp
      with ih have "(y # ys) ! j' < m'" by blast
      with Suc m show ?thesis by simp
    qed
    from ih True m i mx lt show ?thesis by (simp add: max_def)
  next
    case False
    with Cons.prems r have m: "m = x" and i: "i = 0" by simp_all
    have mx: "Max (set (x # y # ys)) = max x (Max (set (y # ys)))"
      by simp
    from ih False m i mx show ?thesis by (simp add: max_def)
  qed
qed

lemma torch_max_dim1_Inr:
  assumes "[] \<notin> set rows"
  shows "torch_max_dim1 rows =
     Inr (map (\<lambda>row. fst (max_index (hd row) (tl row))) rows,
          map (\<lambda>row. snd (max_index (hd row) (tl row))) rows)"
  using assms
proof (induction rows)
  case Nil
  then show ?case by simp
next
  case (Cons row rows)
  then obtain x xs where row: "row = x # xs" by (cases row) auto
  from Cons show ?case
    by (simp add: row torch_max_row_def split: prod.splits)
qed

lemma torch_gather_Inr:
  assumes "length ixs \<le> length rows" "\<forall>k<length ixs. ixs ! k < length (rows ! k)"
  shows "torch_gather rows ixs = Inr (map (\<lambda>(row, i). row ! i) (zip rows ixs))"
  using assms
proof (induction rows ixs rule: torch_gather.induct)
  case (1 rows)
  then show ?case by simp
next
  case (2 i ixs)
  then show ?case by simp
next
  case (3 row rows i ixs)
  from "3.prems"(2) have h: "i < length row" by auto
  from "3.prems"(2) have t: "\<forall>k<length ixs. ixs ! k < length (rows ! k)" by auto
  from "3.prems"(1) have l: "length ixs \<le> length rows" by simp
  from "3.IH" [OF h l t] h show ?case by simp
qed





lemma next_max_values_eq:
  assumes t: "\<forall>s\<in>set next_states. forward env True (qnetwork_target ag) s \<noteq> []"
    and l: "double_dqn ag \<longrightarrow> (\<forall>s\<in>set next_states.
              length (forward env True (qnetwork_local ag) s) =
              length (forward env True (qnetwork_target ag) s))"
  shows "next_max_values env ag next_states =
     Inr (map (\<lambda>s. if double_dqn ag
                   then forward env True (qnetwork_target ag) s !
                          snd (max_index (hd (forward env True (qnetwork_local ag) s))
                                 (tl (forward env True (qnetwork_local ag) s)))
                   else fst (max_index (hd (forward env True (qnetwork_target ag) s))
                               (tl (forward env True (qnetwork_target ag) s))))
            next_states)"
proof (cases "double_dqn ag")
  case False
  from t have "[] \<notin> set (map (forward env True (qnetwork_target ag)) next_states)"
    by auto
  from torch_max_dim1_Inr [OF this] False show ?thesis
    by (simp add: next_max_values_def comp_def)
next
  case True
  let ?on = "forward env True (qnetwork_local ag)"
  let ?tg = "forward env True (qnetwork_target ag)"
  let ?ixs = "map (\<lambda>row. snd (max_index (hd row) (tl row))) (map ?on next_states)"
  from t l True have ne: "[] \<notin> set (map ?on next_states)"
    by (metis (no_types, lifting) imageE length_0_conv list.set_map)
  have len: "length ?ixs \<le> length (map ?tg next_states)" by simp
  have rng: "\<forall>k<length ?ixs. ?ixs ! k < length (map ?tg next_states ! k)"
  proof (intro allI impI)
    fix k assume "k < length ?ixs"
    then have k: "k < length next_states" by simp
    then have mem: "next_states ! k \<in> set next_states" by simp
    with ne k have "?on (next_states ! k) \<noteq> []" by (metis (no_types, lifting) image_eqI list.set_map)
    then obtain x xs where row: "?on (next_states ! k) = x # xs"
      by (cases "?on (next_states ! k)") auto
    obtain m i where mi: "max_index x xs = (m, i)" by (cases "max_index x xs")
    from max_index_props [OF mi] have "i < length (x # xs)" by blast
    moreover from l True mem have "length (?on (next_states ! k)) = length (?tg (next_states ! k))"
      by blast
    ultimately have "i < length (?tg (next_states ! k))" by (simp add: row)
    with row mi k show "?ixs ! k < length (map ?tg next_states ! k)"
      by simp
  qed
  have z: "map (\<lambda>(row, i). row ! i) (zip (map ?tg next_states) ?ixs) =
      map (\<lambda>s. ?tg s ! snd (max_index (hd (?on s)) (tl (?on s)))) next_states"
    by (induction next_states) simp_all
  from torch_max_dim1_Inr [OF ne] torch_gather_Inr [OF len rng] True z show ?thesis
    by (simp add: next_max_values_def)
qed

lemma action_rows_okD:
  assumes "action_rows_ok env ag next_states"
  shows "\<forall>s\<in>set next_states. forward env True (qnetwork_target ag) s \<noteq> []"
    and "double_dqn ag \<longrightarrow> (\<forall>s\<in>set next_states.
           length (forward env True (qnetwork_local ag) s) =
           length (forward env True (qnetwork_target ag) s))"
  using assms by (auto simp: action_rows_ok_def)

text \<open>
  C1. When every row of action values is non-empty (and, with the flag set, the online and
  the target network give rows of the same width), the bootstrap values of \<open>learn\<close> are
  defined, one per sample. With \<open>double_dqn\<close> set, the value of a sample is the target
  network's value at the index of the first maximum of the online network's row on the
  next state, not the maximum of the target row; with the flag unset it is the maximum of
  the target network's row.
\<close>

theorem double_dqn_bootstrap:
  assumes "action_rows_ok env ag next_states"
  shows "\<exists>next_max. next_max_values env ag next_states = Inr next_max
       \<and> length next_max = length next_states
       \<and> (\<forall>k<length next_states.
            (double_dqn ag \<longrightarrow>
               (\<exists>a<length (forward env True (qnetwork_local ag) (next_states ! k)).
                    forward env True (qnetwork_local ag) (next_states ! k) ! a =
                      Max (set (forward env True (qnetwork_local ag) (next_states ! k)))
                  \<and> (\<forall>b<a. forward env True (qnetwork_local ag) (next_states ! k) ! b
                            < forward env True (qnetwork_local ag) (next_states ! k) ! a)
                  \<and> next_max ! k = forward env True (qnetwork_target ag) (next_states ! k) ! a))
          \<and> (\<not> double_dqn ag \<longrightarrow>
               next_max ! k = Max (set (forward env True (qnetwork_target ag) (next_states ! k)))))"
proof -
  let ?on = "forward env True (qnetwork_local ag)"
  let ?tg = "forward env True (qnetwork_target ag)"
  let ?f = "\<lambda>s. if double_dqn ag
                   then ?tg s ! snd (max_index (hd (?on s)) (tl (?on s)))
                   else fst (max_index (hd (?tg s)) (tl (?tg s)))"
  note shape = action_rows_okD [OF assms]
  have eq: "next_max_values env ag next_states = Inr (map ?f next_states)"
    using shape by (rule next_max_values_eq)
  have row: "(double_dqn ag \<longrightarrow>
               (\<exists>a<length (?on (next_states ! k)).
                    ?on (next_states ! k) ! a = Max (set (?on (next_states ! k)))
                  \<and> (\<forall>b<a. ?on (next_states ! k) ! b < ?on (next_states ! k) ! a)
                  \<and> map ?f next_states ! k = ?tg (next_states ! k) ! a))
          \<and> (\<not> double_dqn ag \<longrightarrow> map ?f next_states ! k = Max (set (?tg (next_states ! k))))"
    if k: "k < length next_states" for k
  proof (intro conjI impI)
    assume d: "double_dqn ag"
    from k have mem: "next_states ! k \<in> set next_states" by simp
    with shape d have "length (?on (next_states ! k)) = length (?tg (next_states ! k))"
      and "?tg (next_states ! k) \<noteq> []" by blast+
    then have "?on (next_states ! k) \<noteq> []" by auto
    then obtain x xs where r: "?on (next_states ! k) = x # xs"
      by (cases "?on (next_states ! k)") auto
    obtain m a where ma: "max_index x xs = (m, a)" by (cases "max_index x xs")
    from max_index_props [OF ma]
    have "a < length (x # xs)" "(x # xs) ! a = Max (set (x # xs))"
      "\<forall>b<a. (x # xs) ! b < (x # xs) ! a"
      by auto
    moreover have "map ?f next_states ! k = ?tg (next_states ! k) ! a"
      using k d r ma by simp
    ultimately show "\<exists>a<length (?on (next_states ! k)).
                    ?on (next_states ! k) ! a = Max (set (?on (next_states ! k)))
                  \<and> (\<forall>b<a. ?on (next_states ! k) ! b < ?on (next_states ! k) ! a)
                  \<and> map ?f next_states ! k = ?tg (next_states ! k) ! a"
      unfolding r by blast
  next
    assume d: "\<not> double_dqn ag"
    from k have mem: "next_states ! k \<in> set next_states" by simp
    with shape have "?tg (next_states ! k) \<noteq> []" by blast
    then obtain x xs where r: "?tg (next_states ! k) = x # xs"
      by (cases "?tg (next_states ! k)") auto
    obtain m a where ma: "max_index x xs = (m, a)" by (cases "max_index x xs")
    from max_index_props [OF ma] have "m = Max (set (x # xs))" by simp
    then show "map ?f next_states ! k = Max (set (?tg (next_states ! k)))"
      using k d r ma by simp
  qed
  have rows: "\<forall>k<length next_states.
          (double_dqn ag \<longrightarrow>
               (\<exists>a<length (?on (next_states ! k)).
                    ?on (next_states ! k) ! a = Max (set (?on (next_states ! k)))
                  \<and> (\<forall>b<a. ?on (next_states ! k) ! b < ?on (next_states ! k) ! a)
                  \<and> map ?f next_states ! k = ?tg (next_states ! k) ! a))
          \<and> (\<not> double_dqn ag \<longrightarrow> map ?f next_states ! k = Max (set (?tg (next_states ! k))))"
    using row by blast
  have len: "length (map ?f next_states) = length next_states" by simp
  show ?thesis
    by (rule exI [of _ "map ?f next_states"]) (intro conjI eq len rows)
qed

theorem double_dqn_bootstrap_witness:
  "action_rows_ok example_env (example_agent True) [11, 13]
   \<and> (\<exists>next_max. next_max_values example_env (example_agent True) [11, 13] = Inr next_max
         \<and> length next_max = length [11, 13::nat])"
proof -
  have h: "action_rows_ok example_env (example_agent True) [11, 13]"
    by (simp add: action_rows_ok_def example_env_def example_agent_def)
  from double_dqn_bootstrap [OF h] h show ?thesis by blast
qed

text \<open>On the example the two modes differ: the online table prefers action 1, whose target
  value is 2, while the maximum of the target table is 9.\<close>

lemma double_dqn_example:
  "next_max_values example_env (example_agent True) [11, 13] = Inr [2, 2]"
  "next_max_values example_env (example_agent False) [11, 13] = Inr [9, 9]"
  by (simp_all add: next_max_values_def example_env_def example_agent_def torch_max_row_def)





section \<open>Scheduling of learn by step\<close>






lemma run_length: "length (run env ag inputs) \<le> length inputs"
  by (induction env ag inputs rule: run.induct) simp_all


lemma Agent_init_inv:
  "\<exists>ag. Agent_init env n_states n_actions seed ddqn duel = Inr ag
      \<and> agent_inv ag \<and> t_step ag = 0 \<and> len (memory ag) = 0"
  by (simp add: Agent_init_def ReplayBuffer_init_def deque_init_def BUFFER_SIZE_def
        agent_inv_def len_def Let_def)




section \<open>Action selection\<close>

lemma np_argmax_first_max:
  assumes "values \<noteq> []"
  shows "\<exists>a. np_argmax values = Inr a \<and> a < length values
           \<and> values ! a = Max (set values) \<and> (\<forall>b<a. values ! b < values ! a)"
proof -
  from assms obtain x xs where v: "values = x # xs" by (cases "values") auto
  obtain m a where ma: "max_index x xs = (m, a)" by (cases "max_index x xs")
  from max_index_props [OF ma] ma show ?thesis
    unfolding v by (auto simp: np_argmax_def)
qed

lemma act_greedy:
  assumes "eps < u"
  shows "act env ag s eps u j = np_argmax (forward env False (qnetwork_local ag) s)"
  using assms by (simp add: act_def)

lemma act_explore:
  assumes "u \<le> eps" "j < nat (action_size ag)"
  shows "act env ag s eps u j = Inr j"
  using assms by (simp add: act_def random_choice_def np_arange_def)

text \<open>
  C8. \<open>act\<close> returns the first argmax of the online action values whenever the draw of
  \<^verbatim>\<open>random.random()\<close> exceeds \<open>eps\<close> (lemmas \<open>act_greedy\<close>, \<open>np_argmax_first_max\<close>) and an
  index below \<open>action_size\<close> otherwise (\<open>act_explore\<close>). The comparison is strict, and
  \<^verbatim>\<open>random.random()\<close> ranges over \<open>0 \<le> u < 1\<close>: with \<open>eps = 0\<close> and the draw \<open>u = 0\<close> the
  exploring branch is taken, and on the example table \<open>[1, 5]\<close> the call returns action 0
  although the argmax is action 1. So \<open>act\<close> with \<open>eps = 0\<close> is not greedy on every draw.
\<close>

theorem act_eps_zero_draw_zero:
  "act example_env (example_agent True) 10 0 0 0 = Inr 0
   \<and> np_argmax (forward example_env False (qnetwork_local (example_agent True)) 10) = Inr 1"
  by (simp add: act_def random_choice_def np_arange_def np_argmax_def
        example_env_def example_agent_def)

section \<open>Gradient steps and the target parameters\<close>

lemma soft_update_heap_grad: "grad (soft_update_heap ps tau h) = grad h"
  by (induction ps tau h rule: soft_update_heap.induct) simp_all

lemma soft_update_heap_other:
  assumes "a \<notin> fst ` set ps"
  shows "data (soft_update_heap ps tau h) a = data h a"
  using assms by (induction ps tau h rule: soft_update_heap.induct) auto

lemma soft_update_heap_nth:
  assumes "i < length ps" "distinct (map fst ps)" "fst ` set ps \<inter> snd ` set ps = {}"
  shows "data (soft_update_heap ps tau h) (fst (ps ! i)) =
           tau *\<^sub>R data h (snd (ps ! i)) + (1 - tau) *\<^sub>R data h (fst (ps ! i))"
  using assms
proof (induction ps tau h arbitrary: i rule: soft_update_heap.induct)
  case (1 tau h)
  then show ?case by simp
next
  case (2 t l ps tau h)
  let ?h = "h\<lparr>data := (data h)(t := tau *\<^sub>R data h l + (1 - tau) *\<^sub>R data h t)\<rparr>"
  show ?case
  proof (cases i)
    case 0
    from "2.prems"(2) have "t \<notin> fst ` set ps" by auto
    then have "data (soft_update_heap ps tau ?h) t = data ?h t"
      by (rule soft_update_heap_other)
    with 0 show ?thesis by simp
  next
    case (Suc i')
    with "2.prems" have i': "i' < length ps" and d: "distinct (map fst ps)"
      and dj: "fst ` set ps \<inter> snd ` set ps = {}"
      by auto
    from i' have m: "ps ! i' \<in> set ps" by simp
    with "2.prems"(2) have ft: "fst (ps ! i') \<noteq> t" by (auto simp: image_iff)
    from m "2.prems"(3) have st: "snd (ps ! i') \<noteq> t" by (auto simp: image_iff)
    from "2.IH" [OF i' d dj] ft st show ?thesis by (simp add: Suc)
  qed
qed

lemma gradient_step_frame:
  assumes "p \<notin> set (optimizer_parameters objs)" "p \<notin> learn_loss_leaves ddqn objs"
  shows "data (gradient_step ddqn objs cleared gradient update h) p = data h p"
    and "grad (gradient_step ddqn objs cleared gradient update h) p = grad h p"
  using assms
  by (simp_all add: gradient_step_def optimizer_step_heap_def backward_def zero_grad_def)

lemma learn_loss_leaves_eq:
  "learn_loss_leaves ddqn (Agent_init_objects local_ps target_ps) = set local_ps"
  by (simp add: learn_loss_leaves_def Agent_init_objects_def detach_def max_indices_def
        forward_leaves_def gather_leaves_def batch_tensor_def Let_def)

lemma soft_update_heap_values:
  assumes "distinct target_ps" "set local_ps \<inter> set target_ps = {}"
  shows "map (data (soft_update_heap (zip target_ps local_ps) tau h)) target_ps =
           soft_update (map (data h) local_ps) (map (data h) target_ps) tau"
proof (rule nth_equalityI)
  show "length (map (data (soft_update_heap (zip target_ps local_ps) tau h)) target_ps) =
      length (soft_update (map (data h) local_ps) (map (data h) target_ps) tau)"
    by (simp add: soft_update_length)
next
  fix i assume "i < length (map (data (soft_update_heap (zip target_ps local_ps) tau h)) target_ps)"
  then have i: "i < length target_ps" by simp
  let ?ps = "zip target_ps local_ps"
  show "map (data (soft_update_heap ?ps tau h)) target_ps ! i =
      soft_update (map (data h) local_ps) (map (data h) target_ps) tau ! i"
  proof (cases "i < length local_ps")
    case True
    with i have len: "i < length ?ps" by simp
    have d: "distinct (map fst ?ps)"
      using assms(1) by (simp add: map_fst_zip_take)
    have "fst ` set ?ps \<subseteq> set target_ps" "snd ` set ?ps \<subseteq> set local_ps"
      by (auto dest: set_zip_leftD set_zip_rightD)
    with assms(2) have dj: "fst ` set ?ps \<inter> snd ` set ?ps = {}" by blast
    from soft_update_heap_nth [OF len d dj, of tau h] i True show ?thesis
      by (simp add: soft_update_nth)
  next
    case False
    have "target_ps ! i \<notin> fst ` set ?ps"
    proof
      assume "target_ps ! i \<in> fst ` set ?ps"
      then obtain j where j: "j < length ?ps" and e: "fst (?ps ! j) = target_ps ! i"
        by (metis (no_types, lifting) imageE in_set_conv_nth)
      then have "target_ps ! j = target_ps ! i" and "j < length local_ps" by simp_all
      with assms(1) i j have "j = i" by (simp add: nth_eq_iff_index_eq)
      with \<open>j < length local_ps\<close> False show False by simp
    qed
    then have "data (soft_update_heap ?ps tau h) (target_ps ! i) = data h (target_ps ! i)"
      by (rule soft_update_heap_other)
    with i False show ?thesis by (simp add: soft_update_nth_rest)
  qed
qed

lemma learn_target_update:
  assumes "learn env ag experiences gamma = Inr ag'"
  shows "qnetwork_target ag' = soft_update (qnetwork_local ag') (qnetwork_target ag) TAU"
  using assms by (auto simp: learn_def split: prod.splits sum.splits)

text \<open>
  C7. With the two networks' parameter tensors distinct objects, as two constructions
  leave them: the optimizer built by \<open>Agent.__init__\<close> holds exactly the online
  parameters, so no target parameter is among them; no target parameter is a leaf of the
  loss of \<open>learn\<close>, in either mode, so \<^verbatim>\<open>backward\<close> writes no gradient to it; the
  gradient-descent part of \<open>learn\<close> leaves the \<^verbatim>\<open>data\<close> of every target parameter as it
  was, and \<open>learn\<close> as a whole leaves its \<^verbatim>\<open>grad\<close> as it was; after \<open>learn\<close> the target
  parameter is \<open>TAU * online + (1 - TAU) * target\<close>, the blend of \<open>soft_update\<close> with the
  online parameter the gradient step has produced.
\<close>

theorem target_only_soft_updated:
  assumes "distinct target_ps" "set local_ps \<inter> set target_ps = {}"
    and "i < length target_ps" "i < length local_ps"
  shows "optimizer_parameters (Agent_init_objects local_ps target_ps) = local_ps
       \<and> target_ps ! i \<notin> set (optimizer_parameters (Agent_init_objects local_ps target_ps))
       \<and> target_ps ! i \<notin> learn_loss_leaves ddqn (Agent_init_objects local_ps target_ps)
       \<and> data (gradient_step ddqn (Agent_init_objects local_ps target_ps)
                 cleared gradient update h) (target_ps ! i)
           = data h (target_ps ! i)
       \<and> grad (learn_heap ddqn (Agent_init_objects local_ps target_ps)
                 cleared gradient update h) (target_ps ! i)
           = grad h (target_ps ! i)
       \<and> data (learn_heap ddqn (Agent_init_objects local_ps target_ps)
                 cleared gradient update h) (target_ps ! i)
           = TAU *\<^sub>R data (gradient_step ddqn (Agent_init_objects local_ps target_ps)
                             cleared gradient update h) (local_ps ! i)
             + (1 - TAU) *\<^sub>R data h (target_ps ! i)"
proof -
  let ?objs = "Agent_init_objects local_ps target_ps"
  let ?ps = "zip target_ps local_ps"
  let ?g = "gradient_step ddqn ?objs cleared gradient update h"
  from assms(3) have mem: "target_ps ! i \<in> set target_ps" by simp
  with assms(2) have nl: "target_ps ! i \<notin> set local_ps" by blast
  have opt: "optimizer_parameters ?objs = local_ps"
    by (simp add: Agent_init_objects_def)
  from nl have no_opt: "target_ps ! i \<notin> set (optimizer_parameters ?objs)"
    by (simp add: opt)
  from nl have no_leaf: "target_ps ! i \<notin> learn_loss_leaves ddqn ?objs"
    by (simp add: learn_loss_leaves_eq)
  note frame = gradient_step_frame [OF no_opt no_leaf]
  have len: "i < length ?ps" using assms(3,4) by simp
  have d: "distinct (map fst ?ps)"
    using assms(1) by (simp add: map_fst_zip_take)
  have "fst ` set ?ps \<subseteq> set target_ps" "snd ` set ?ps \<subseteq> set local_ps"
    by (auto dest: set_zip_leftD set_zip_rightD)
  with assms(2) have dj: "fst ` set ?ps \<inter> snd ` set ?ps = {}" by blast
  have nth: "fst (?ps ! i) = target_ps ! i" "snd (?ps ! i) = local_ps ! i"
    using assms(3,4) by simp_all
  from soft_update_heap_nth [OF len d dj, of TAU ?g]
  have blend: "data (learn_heap ddqn ?objs cleared gradient update h) (target_ps ! i) =
      TAU *\<^sub>R data ?g (local_ps ! i) + (1 - TAU) *\<^sub>R data h (target_ps ! i)"
    by (simp add: nth learn_heap_def Agent_init_objects_def frame(1) [unfolded Agent_init_objects_def])
  have g: "grad (learn_heap ddqn ?objs cleared gradient update h) (target_ps ! i) =
      grad h (target_ps ! i)"
    by (simp add: learn_heap_def soft_update_heap_grad frame(2))
  from opt no_opt no_leaf frame(1) g blend show ?thesis by blast
qed

theorem target_only_soft_updated_witness:
  "distinct [2, 3::nat] \<and> set [0, 4::nat] \<inter> set [2, 3] = {}
   \<and> (0::nat) < length [2, 3::nat] \<and> (0::nat) < length [0, 4::nat]
   \<and> data (gradient_step True (Agent_init_objects [0, 4] [2, 3]) (\<lambda>g. None) (\<lambda>p. 1)
              (\<lambda>p d g. d - g) example_heap) 0 = - 1
   \<and> data (learn_heap True (Agent_init_objects [0, 4] [2, 3]) (\<lambda>g. None) (\<lambda>p. 1)
              (\<lambda>p d g. d - g) example_heap) 2 = 1997 / 1000"
proof -
  have h1: "distinct [2, 3::nat]" by simp
  have h2: "set [0, 4::nat] \<inter> set [2, 3] = {}" by simp
  have h3: "(0::nat) < length [2, 3::nat]" by simp
  have h4: "(0::nat) < length [0, 4::nat]" by simp
  have g: "data (gradient_step True (Agent_init_objects [0, 4] [2, 3]) (\<lambda>g. None) (\<lambda>p. 1)
              (\<lambda>p d g. d - g) example_heap) 0 = - 1"
    by (simp add: gradient_step_def optimizer_step_heap_def backward_def zero_grad_def
          learn_loss_leaves_def forward_leaves_def detach_def max_indices_def gather_leaves_def
          batch_tensor_def Agent_init_objects_def example_heap_def)
  have d2: "data example_heap 2 = 2" by (simp add: example_heap_def)
  from target_only_soft_updated [OF h1 h2 h3 h4, of True "\<lambda>g. None" "\<lambda>p. 1" "\<lambda>p d g. d - g"
      example_heap]
  have "data (learn_heap True (Agent_init_objects [0, 4] [2, 3]) (\<lambda>g. None) (\<lambda>p. 1)
              (\<lambda>p d g. d - g) example_heap) 2 = 1997 / 1000"
    by (simp add: g d2 TAU_def)
  with h1 h2 h3 h4 g show ?thesis by blast
qed

end
